theory Spec2Isabelle
  imports Main
begin

section \<open>Python strings and form data\<close>

text \<open>
  A Python \<open>str\<close> is a sequence of Unicode code points, so it is modelled as a list of
  natural numbers, one per code point. \<open>of_ascii\<close> writes an ASCII literal as such a list.
\<close>

type_synonym py_str = "nat list"

definition of_ascii :: "string \<Rightarrow> py_str" where
  "of_ascii cs = map of_char cs"

text \<open>
  \<open>str.isspace\<close> for one code point: the code points CPython classifies as whitespace
  (bidirectional class WS, B or S, or category Zs).
\<close>

definition isspace :: "nat \<Rightarrow> bool" where
  "isspace c \<longleftrightarrow>
     c \<in> set [9, 10, 11, 12, 13, 28, 29, 30, 31, 32, 133, 160, 5760,
              8232, 8233, 8239, 8287, 12288]
     \<or> (8192 \<le> c \<and> c \<le> 8202)"

text \<open>\<open>str.strip()\<close> with no argument: whitespace is removed at both ends.\<close>

definition strip :: "py_str \<Rightarrow> py_str" where
  "strip s = rev (dropWhile isspace (rev (dropWhile isspace s)))"

text \<open>
  \<open>request.form\<close> (and \<open>request.args\<close>) is a multi-dictionary: an ordered list of
  key/value pairs, where \<open>get(key, default)\<close> returns the first value stored under the
  key and the default when there is none. The keys the handlers look up are ASCII
  literals.
\<close>

type_synonym form = "(string \<times> py_str) list"

definition form_get :: "form \<Rightarrow> string \<Rightarrow> py_str \<Rightarrow> py_str" where
  "form_get f k d = (case map_of f k of None \<Rightarrow> d | Some v \<Rightarrow> v)"

text \<open>\<open>request.form.get(k, '').strip()\<close>, the way every handler reads a field.\<close>

definition field :: "form \<Rightarrow> string \<Rightarrow> py_str" where
  "field f k = strip (form_get f k [])"

datatype http_method = GET | POST

section \<open>The message literals of the source\<close>

text \<open>
  The messages are Chinese string literals in the source; each is given here by its
  code points. In reading order: "please enter user name, e-mail and password",
  "user name already exists", "e-mail is already in use", "please enter e-mail and
  password", "e-mail or password wrong", "an unknown error occurred", "user does not
  exist".
\<close>

definition msg_register_required :: py_str where
  "msg_register_required =
     [35531, 36664, 20837, 29992, 25142, 21517, 12289, 38651, 23376, 37109, 20214,
      21644, 23494, 30908]"

definition msg_username_exists :: py_str where
  "msg_username_exists = [29992, 25142, 21517, 24050, 23384, 22312]"

definition msg_email_in_use :: py_str where
  "msg_email_in_use = [38651, 23376, 37109, 20214, 24050, 34987, 20351, 29992]"

definition msg_email_password_required :: py_str where
  "msg_email_password_required =
     [35531, 36664, 20837, 38651, 23376, 37109, 20214, 21644, 23494, 30908]"

definition msg_bad_credentials :: py_str where
  "msg_bad_credentials = [38651, 23376, 37109, 20214, 25110, 23494, 30908, 37679, 35492]"

definition msg_unknown_error :: py_str where
  "msg_unknown_error = [30332, 29983, 26410, 30693, 37679, 35492]"

definition msg_no_such_user :: py_str where
  "msg_no_such_user = [29992, 25142, 19981, 23384, 22312]"

section \<open>The members table\<close>

text \<open>
  One row of the table \<open>members\<close>. \<open>iid\<close> is the INTEGER PRIMARY KEY; \<open>username\<close>,
  \<open>email\<close> and \<open>password\<close> are TEXT NOT NULL; \<open>phone\<close> and \<open>birthdate\<close> are TEXT
  columns that may hold NULL, which is \<open>None\<close>. Row ids are natural numbers: the 64-bit
  limit of a row id is out of reach of one insertion per request.
\<close>

record members_row =
  iid :: nat
  username :: py_str
  email :: py_str
  password :: py_str
  phone :: "py_str option"
  birthdate :: "py_str option"

text \<open>
  The database: the rows of \<open>members\<close> in row-id order, and the counter that
  AUTOINCREMENT keeps in \<open>sqlite_sequence\<close> (the largest row id the table ever held).
  Every handler opens its own connection and commits or closes before it returns, so a
  handler is a function from the database before the request to the database after it.
\<close>

record db =
  members :: "members_row list"
  autoinc :: nat

text \<open>\<open>init_db\<close> on a fresh database file: the table exists and is empty.\<close>

definition init_db :: db where
  "init_db = \<lparr>members = [], autoinc = 0\<rparr>"

text \<open>
  The exceptions that the \<open>sqlite3\<close> module raises in this program: a violated constraint,
  and a Python int that does not fit the 64-bit signed integer of SQLite.
\<close>

datatype db_error = IntegrityError | OverflowError

text \<open>
  Binding the path id to the \<open>?\<close> of a statement. The route converter \<open>int\<close> accepts any
  unsigned decimal number, and \<open>conn.execute\<close> raises \<open>OverflowError\<close> for a value of
  \<open>2 ^ 63\<close> or more before the statement runs. Row ids are 64-bit signed integers in
  SQLite, so the id of a stored row is always bound; the model keeps row ids as natural
  numbers without that limit, and the second disjunct says the same of its tables.
\<close>

definition binds_iid :: "db \<Rightarrow> nat \<Rightarrow> bool" where
  "binds_iid s i \<longleftrightarrow> i < 2 ^ 63 \<or> i \<in> set (map iid (members s))"

text \<open>\<open>SELECT iid FROM members WHERE username = ?\<close>, then \<open>fetchone()\<close>.\<close>

definition select_by_username :: "db \<Rightarrow> py_str \<Rightarrow> members_row option" where
  "select_by_username s u = find (\<lambda>m. username m = u) (members s)"

text \<open>\<open>SELECT * FROM members WHERE email = ? AND password = ?\<close>, then \<open>fetchone()\<close>.\<close>

definition select_by_credentials :: "db \<Rightarrow> py_str \<Rightarrow> py_str \<Rightarrow> members_row option" where
  "select_by_credentials s e p = find (\<lambda>m. email m = e \<and> password m = p) (members s)"

text \<open>\<open>SELECT * FROM members WHERE iid = ?\<close>, then \<open>fetchone()\<close>.\<close>

definition select_by_iid :: "db \<Rightarrow> nat \<Rightarrow> members_row option" where
  "select_by_iid s i = find (\<lambda>m. iid m = i) (members s)"

text \<open>\<open>SELECT 1 FROM members WHERE email = ? AND iid != ?\<close>, then \<open>fetchone()\<close>.\<close>

definition select_email_other :: "db \<Rightarrow> py_str \<Rightarrow> nat \<Rightarrow> members_row option" where
  "select_email_other s e i = find (\<lambda>m. email m = e \<and> iid m \<noteq> i) (members s)"

text \<open>
  The row id AUTOINCREMENT gives the next inserted row: one more than the largest row
  id that the table holds or ever held.
\<close>

definition next_iid :: "db \<Rightarrow> nat" where
  "next_iid s = Suc (fold max (map iid (members s)) (autoinc s))"

text \<open>
  \<open>INSERT INTO members (username, email, password, phone, birthdate) VALUES (?, ?, ?, ?, ?)\<close>
  followed by \<open>commit()\<close>. The UNIQUE constraints on \<open>username\<close> and \<open>email\<close> make the
  statement fail with \<open>sqlite3.IntegrityError\<close>, and a failed statement changes nothing.
  The bound values are Python strings, so no column receives NULL.
\<close>

definition insert_member ::
  "db \<Rightarrow> py_str \<Rightarrow> py_str \<Rightarrow> py_str \<Rightarrow> py_str \<Rightarrow> py_str \<Rightarrow> db_error + db" where
  "insert_member s u e p ph b =
     (if u \<in> set (map username (members s)) \<or> e \<in> set (map email (members s))
      then Inl IntegrityError
      else Inr \<lparr>members = members s @
                  [\<lparr>iid = next_iid s, username = u, email = e, password = p,
                    phone = Some ph, birthdate = Some b\<rparr>],
                autoinc = next_iid s\<rparr>)"

text \<open>
  \<open>UPDATE members SET email = ?, password = ?, phone = ?, birthdate = ? WHERE iid = ?\<close>
  followed by \<open>commit()\<close>. The statement fails with \<open>sqlite3.IntegrityError\<close> when it
  would give the addressed row an email that another row holds.
\<close>

definition update_member ::
  "db \<Rightarrow> py_str \<Rightarrow> py_str \<Rightarrow> py_str \<Rightarrow> py_str \<Rightarrow> nat \<Rightarrow> db_error + db" where
  "update_member s e p ph b i =
     (if i \<in> set (map iid (members s)) \<and>
         e \<in> set (map email (filter (\<lambda>m. iid m \<noteq> i) (members s)))
      then Inl IntegrityError
      else Inr (s\<lparr>members :=
                  map (\<lambda>m. if iid m = i
                            then m\<lparr>email := e, password := p, phone := Some ph,
                                   birthdate := Some b\<rparr>
                            else m)
                      (members s)\<rparr>))"

text \<open>\<open>DELETE FROM members WHERE iid = ?\<close> followed by \<open>commit()\<close>.\<close>

definition delete_member :: "db \<Rightarrow> nat \<Rightarrow> db" where
  "delete_member s i = s\<lparr>members := filter (\<lambda>m. iid m \<noteq> i) (members s)\<rparr>"

section \<open>Responses\<close>

text \<open>
  What a handler returns: a rendered template with the variables it is given, a
  redirect to the URL of an endpoint, or the failure of the request by an exception
  that no handler catches.
\<close>

datatype view =
    Index_html
  | Register_html
  | Login_html
  | Welcome_html py_str nat
  | Error_html py_str
  | Edit_profile_html members_row

datatype url = Index_url | Login_url | Error_url py_str | Welcome_url nat

datatype response = Render view | Redirect url | Uncaught db_error

section \<open>The request handlers\<close>

definition index :: response where
  "index = Render Index_html"

definition register :: "db \<Rightarrow> http_method \<Rightarrow> form \<Rightarrow> db \<times> response" where
  "register s meth f =
     (if meth = POST then
        (let u = field f ''username'';
             e = field f ''email'';
             p = field f ''password'';
             ph = field f ''phone'';
             b = field f ''birthdate''
         in if u = [] \<or> e = [] \<or> p = []
            then (s, Redirect (Error_url msg_register_required))
            else (case select_by_username s u of
                    Some _ \<Rightarrow> (s, Redirect (Error_url msg_username_exists))
                  | None \<Rightarrow>
                      (case insert_member s u e p ph b of
                         Inl IntegrityError \<Rightarrow> (s, Redirect (Error_url msg_email_in_use))
                       | Inl OverflowError \<Rightarrow> (s, Uncaught OverflowError)
                       | Inr s' \<Rightarrow> (s', Redirect Login_url))))
      else (s, Render Register_html))"

definition login :: "db \<Rightarrow> http_method \<Rightarrow> form \<Rightarrow> response" where
  "login s meth f =
     (if meth = POST then
        (let e = field f ''email'';
             p = field f ''password''
         in if e = [] \<or> p = []
            then Redirect (Error_url msg_email_password_required)
            else (case select_by_credentials s e p of
                    Some user \<Rightarrow> Render (Welcome_html (username user) (iid user))
                  | None \<Rightarrow> Redirect (Error_url msg_bad_credentials)))
      else Render Login_html)"

definition error :: "form \<Rightarrow> response" where
  "error args = Render (Error_html (form_get args ''message'' msg_unknown_error))"

text \<open>The handler \<open>welcome\<close> of the source (the plain name is an Isabelle command).\<close>

definition welcome_view :: "db \<Rightarrow> nat \<Rightarrow> response" where
  "welcome_view s i =
     (if binds_iid s i then
        (case select_by_iid s i of
           None \<Rightarrow> Render (Error_html msg_no_such_user)
         | Some user \<Rightarrow> Render (Welcome_html (username user) (iid user)))
      else Uncaught OverflowError)"

definition edit_profile :: "db \<Rightarrow> nat \<Rightarrow> http_method \<Rightarrow> form \<Rightarrow> db \<times> response" where
  "edit_profile s i meth f =
     (if binds_iid s i then
        (case select_by_iid s i of
           None \<Rightarrow> (s, Render (Error_html msg_no_such_user))
         | Some user \<Rightarrow>
             if meth = POST then
               (let e = field f ''email'';
                    p = field f ''password'';
                    ph = field f ''phone'';
                    b = field f ''birthdate''
                in if e = [] \<or> p = []
                   then (s, Render (Error_html msg_email_password_required))
                   else (case select_email_other s e i of
                           Some _ \<Rightarrow> (s, Render (Error_html msg_email_in_use))
                         | None \<Rightarrow>
                             (case update_member s e p ph b i of
                                Inl err \<Rightarrow> (s, Uncaught err)
                              | Inr s' \<Rightarrow> (s', Redirect (Welcome_url i)))))
             else (s, Render (Edit_profile_html user)))
      else (s, Uncaught OverflowError))"

definition delete_user :: "db \<Rightarrow> nat \<Rightarrow> db \<times> response" where
  "delete_user s i =
     (if binds_iid s i then (delete_member s i, Redirect Index_url)
      else (s, Uncaught OverflowError))"

section \<open>Requests and runs\<close>

text \<open>The routes of the application, each with the methods it accepts.\<close>

datatype request =
    Index_req
  | Register_req http_method form
  | Login_req http_method form
  | Error_req form
  | Welcome_req nat
  | Edit_profile_req nat http_method form
  | Delete_req nat

fun handle :: "db \<Rightarrow> request \<Rightarrow> db \<times> response" where
  "handle s Index_req = (s, index)"
| "handle s (Register_req meth f) = register s meth f"
| "handle s (Login_req meth f) = (s, login s meth f)"
| "handle s (Error_req args) = (s, error args)"
| "handle s (Welcome_req i) = (s, welcome_view s i)"
| "handle s (Edit_profile_req i meth f) = edit_profile s i meth f"
| "handle s (Delete_req i) = delete_user s i"

text \<open>The database after a sequence of requests, served one after the other.\<close>

fun run :: "db \<Rightarrow> request list \<Rightarrow> db" where
  "run s [] = s"
| "run s (r # rs) = run (fst (handle s r)) rs"

text \<open>
  The constraints of the schema on a database: the primary key and the two UNIQUE
  columns hold no value twice, and the AUTOINCREMENT counter is not below a stored id.
\<close>

definition schema_ok :: "db \<Rightarrow> bool" where
  "schema_ok s \<longleftrightarrow>
     distinct (map iid (members s)) \<and>
     distinct (map username (members s)) \<and>
     distinct (map email (members s)) \<and>
     list_all (\<lambda>m. iid m \<le> autoinc s) (members s)"

text \<open>The two nullable columns hold a string in every row.\<close>

definition strings_present :: "db \<Rightarrow> bool" where
  "strings_present s \<longleftrightarrow> list_all (\<lambda>m. phone m \<noteq> None \<and> birthdate m \<noteq> None) (members s)"

section \<open>Example requests\<close>

text \<open>The forms and databases at which the theorems below are instantiated.\<close>

definition alice_form :: form where
  "alice_form = [(''username'', of_ascii ''alice''), (''email'', of_ascii ''a@x.com''),
                 (''password'', of_ascii ''p1'')]"

definition alice_login :: form where
  "alice_login = [(''email'', of_ascii ''a@x.com''), (''password'', of_ascii ''p1'')]"

definition bob_form :: form where
  "bob_form = [(''username'', of_ascii ''bob''), (''email'', of_ascii ''b@x.com''),
               (''password'', of_ascii ''p2'')]"

definition carol_form :: form where
  "carol_form = [(''username'', of_ascii ''carol''), (''email'', of_ascii ''b@x.com''),
                 (''password'', of_ascii ''p3'')]"

definition alice_bob_db :: db where
  "alice_bob_db = run init_db [Register_req POST alice_form, Register_req POST bob_form]"

definition bob_no_password_form :: form where
  "bob_no_password_form = [(''username'', of_ascii ''bob''), (''email'', of_ascii ''new@x.com'')]"

definition bob_again_form :: form where
  "bob_again_form = [(''username'', of_ascii ''bob''), (''email'', of_ascii ''new@x.com''),
                     (''password'', of_ascii ''q''), (''phone'', of_ascii ''0912'')]"

definition carol_no_password_form :: form where
  "carol_no_password_form = [(''username'', of_ascii ''carol''), (''email'', of_ascii ''b@x.com'')]"

definition edit_taken_no_password_form :: form where
  "edit_taken_no_password_form = [(''email'', of_ascii ''b@x.com'')]"

definition edit_own_no_password_form :: form where
  "edit_own_no_password_form = [(''email'', of_ascii ''a@x.com'')]"

definition edit_taken_form :: form where
  "edit_taken_form = [(''email'', of_ascii ''b@x.com''), (''password'', of_ascii ''n1'')]"

definition edit_own_form :: form where
  "edit_own_form = [(''email'', of_ascii ''a@x.com''), (''password'', of_ascii ''n1''),
                    (''phone'', of_ascii ''0912'')]"

definition wrong_password_login :: form where
  "wrong_password_login = [(''email'', of_ascii ''a@x.com''), (''password'', of_ascii ''bad'')]"

definition unknown_email_login :: form where
  "unknown_email_login = [(''email'', of_ascii ''z@x.com''), (''password'', of_ascii ''bad'')]"

definition unknown_email_no_password_login :: form where
  "unknown_email_no_password_login = [(''email'', of_ascii ''z@x.com'')]"

definition alice_row :: members_row where
  "alice_row = \<lparr>iid = 1, username = of_ascii ''alice'', email = of_ascii ''a@x.com'',
                 password = of_ascii ''p1'', phone = Some [], birthdate = Some []\<rparr>"

definition alice_edited_row :: members_row where
  "alice_edited_row = \<lparr>iid = 1, username = of_ascii ''alice'', email = of_ascii ''a@x.com'',
                 password = of_ascii ''n1'', phone = Some (of_ascii ''0912''), birthdate = Some []\<rparr>"

definition bob_row :: members_row where
  "bob_row = \<lparr>iid = 2, username = of_ascii ''bob'', email = of_ascii ''b@x.com'',
               password = of_ascii ''p2'', phone = Some [], birthdate = Some []\<rparr>"

definition alice_plain_row :: members_row where
  "alice_plain_row = \<lparr>iid = 1, username = of_ascii ''alice'', email = of_ascii ''a@x.com'',
                 password = of_ascii ''n2'', phone = Some [], birthdate = Some []\<rparr>"

definition edit_plain_form :: form where
  "edit_plain_form = [(''email'', of_ascii ''a@x.com''), (''password'', of_ascii ''n2'')]"

definition alice_phone_db :: db where
  "alice_phone_db =
     run init_db [Register_req POST alice_form, Register_req POST bob_form,
                  Edit_profile_req 1 POST edit_own_form]"

section \<open>Basic facts about the queries\<close>

lemma select_by_username_None:
  "select_by_username s u = None \<longleftrightarrow> u \<notin> set (map username (members s))"
  by (auto simp: select_by_username_def find_None_iff)

lemma select_email_other_None:
  "select_email_other s e i = None \<longleftrightarrow>
     e \<notin> set (map email (filter (\<lambda>m. iid m \<noteq> i) (members s)))"
  by (auto simp: select_email_other_def find_None_iff)

lemma select_by_iid_None:
  "select_by_iid s i = None \<longleftrightarrow> i \<notin> set (map iid (members s))"
  by (auto simp: select_by_iid_def find_None_iff)

lemma fold_max_ge: "(a::nat) \<le> fold max xs a"
  by (induction xs arbitrary: a) (auto intro: order_trans[OF max.cobounded2])

lemma fold_max_mem: "x \<in> set xs \<Longrightarrow> (x::nat) \<le> fold max xs a"
proof (induction xs arbitrary: a)
  case Nil
  then show ?case by simp
next
  case (Cons y ys)
  show ?case
  proof (cases "x = y")
    case True
    have "x \<le> max y a" using True by simp
    also have "\<dots> \<le> fold max ys (max y a)" by (rule fold_max_ge)
    finally show ?thesis by simp
  next
    case False
    with Cons show ?thesis by simp
  qed
qed

lemma next_iid_gt_autoinc: "autoinc s < next_iid s"
  by (simp add: next_iid_def fold_max_ge less_Suc_eq_le)

lemma next_iid_gt_iid: "m \<in> set (members s) \<Longrightarrow> iid m < next_iid s"
  by (simp add: next_iid_def fold_max_mem less_Suc_eq_le)

lemma next_iid_fresh: "next_iid s \<notin> set (map iid (members s))"
  using next_iid_gt_iid by fastforce

lemma register_post:
  "register s POST f =
     (if field f ''username'' = [] \<or> field f ''email'' = [] \<or> field f ''password'' = []
      then (s, Redirect (Error_url msg_register_required))
      else if field f ''username'' \<in> set (map username (members s))
      then (s, Redirect (Error_url msg_username_exists))
      else if field f ''email'' \<in> set (map email (members s))
      then (s, Redirect (Error_url msg_email_in_use))
      else (\<lparr>members = members s @
                [\<lparr>iid = next_iid s, username = field f ''username'',
                  email = field f ''email'', password = field f ''password'',
                  phone = Some (field f ''phone''),
                  birthdate = Some (field f ''birthdate'')\<rparr>],
              autoinc = next_iid s\<rparr>,
            Redirect Login_url))"
proof (cases "select_by_username s (field f ''username'')")
  case None
  then have "field f ''username'' \<notin> set (map username (members s))"
    using select_by_username_None[of s "field f ''username''"] by simp
  with None show ?thesis
    by (simp add: register_def insert_member_def Let_def)
next
  case (Some m)
  then have "field f ''username'' \<in> set (map username (members s))"
    using select_by_username_None[of s "field f ''username''"] by simp
  with Some show ?thesis
    by (simp add: register_def Let_def)
qed

lemma edit_profile_post:
  "edit_profile s i POST f =
     (if \<not> binds_iid s i
      then (s, Uncaught OverflowError)
      else if i \<notin> set (map iid (members s))
      then (s, Render (Error_html msg_no_such_user))
      else if field f ''email'' = [] \<or> field f ''password'' = []
      then (s, Render (Error_html msg_email_password_required))
      else if field f ''email'' \<in> set (map email (filter (\<lambda>m. iid m \<noteq> i) (members s)))
      then (s, Render (Error_html msg_email_in_use))
      else (s\<lparr>members :=
                map (\<lambda>m. if iid m = i
                          then m\<lparr>email := field f ''email'', password := field f ''password'',
                                 phone := Some (field f ''phone''),
                                 birthdate := Some (field f ''birthdate'')\<rparr>
                          else m)
                    (members s)\<rparr>,
            Redirect (Welcome_url i)))"
proof (cases "binds_iid s i")
  case False
  then show ?thesis
    by (simp add: edit_profile_def)
next
  case binds: True
  show ?thesis
  proof (cases "select_by_iid s i")
    case None
    with binds show ?thesis
      using select_by_iid_None[of s i] by (simp add: edit_profile_def)
  next
    case user: (Some user)
    then have stored: "i \<in> set (map iid (members s))"
      using select_by_iid_None[of s i] by simp
    show ?thesis
    proof (cases "select_email_other s (field f ''email'') i")
      case None
      then have "field f ''email'' \<notin> set (map email (filter (\<lambda>m. iid m \<noteq> i) (members s)))"
        using select_email_other_None[of s "field f ''email''" i] by simp
      with None user stored binds show ?thesis
        by (simp add: edit_profile_def update_member_def Let_def)
    next
      case (Some other)
      then have "field f ''email'' \<in> set (map email (filter (\<lambda>m. iid m \<noteq> i) (members s)))"
        using select_email_other_None[of s "field f ''email''" i] by simp
      with Some user stored binds show ?thesis
        by (simp add: edit_profile_def Let_def)
    qed
  qed
qed

lemma binds_iid_stored: "i \<in> set (map iid (members s)) \<Longrightarrow> binds_iid s i"
  by (simp add: binds_iid_def)

lemma find_append:
  "find P (xs @ ys) = (case find P xs of None \<Rightarrow> find P ys | Some x \<Rightarrow> Some x)"
  by (induction xs) simp_all

lemma field_absent: "map_of f k = None \<Longrightarrow> field f k = []"
  by (simp add: field_def form_get_def strip_def)

section \<open>The schema constraints hold after every request\<close>

lemma schema_ok_init_db: "schema_ok init_db"
  by (simp add: schema_ok_def init_db_def)

lemma schema_ok_insert:
  assumes "schema_ok s"
      and "u \<notin> set (map username (members s))"
      and "e \<notin> set (map email (members s))"
  shows "schema_ok \<lparr>members = members s @
            [\<lparr>iid = next_iid s, username = u, email = e, password = p,
              phone = ph, birthdate = b\<rparr>],
          autoinc = next_iid s\<rparr>"
proof -
  have old: "list_all (\<lambda>m. iid m \<le> next_iid s) (members s)"
    using next_iid_gt_iid[of _ s] by (auto simp: list_all_iff intro: less_imp_le)
  show ?thesis
    using assms old next_iid_fresh[of s] by (simp add: schema_ok_def)
qed

lemma schema_ok_register: "schema_ok s \<Longrightarrow> schema_ok (fst (register s meth f))"
proof (cases meth)
  case GET
  assume "schema_ok s"
  with GET show ?thesis by (simp add: register_def)
next
  case POST
  assume "schema_ok s"
  with POST show ?thesis
    by (simp add: register_post schema_ok_insert)
qed

lemma distinct_email_update:
  assumes "distinct (map email ms)"
      and "distinct (map iid ms)"
      and "e \<notin> set (map email (filter (\<lambda>m. iid m \<noteq> i) ms))"
  shows "distinct (map email
           (map (\<lambda>m. if iid m = i
                     then m\<lparr>email := e, password := p, phone := ph, birthdate := b\<rparr>
                     else m) ms))"
  using assms
proof (induction ms)
  case Nil
  then show ?case by simp
next
  case (Cons m ms)
  then show ?case
    by (auto simp: image_iff split: if_splits)
qed

lemma map_iid_update:
  "map iid (map (\<lambda>m. if iid m = i
                     then m\<lparr>email := e, password := p, phone := ph, birthdate := b\<rparr>
                     else m) ms) = map iid ms"
  by (induction ms) auto

lemma map_username_update:
  "map username (map (\<lambda>m. if iid m = i
                     then m\<lparr>email := e, password := p, phone := ph, birthdate := b\<rparr>
                     else m) ms) = map username ms"
  by (induction ms) auto

lemma schema_ok_update:
  assumes "schema_ok s"
      and "e \<notin> set (map email (filter (\<lambda>m. iid m \<noteq> i) (members s)))"
  shows "schema_ok (s\<lparr>members :=
           map (\<lambda>m. if iid m = i
                     then m\<lparr>email := e, password := p, phone := ph, birthdate := b\<rparr>
                     else m)
               (members s)\<rparr>)"
proof -
  let ?ms = "map (\<lambda>m. if iid m = i
                     then m\<lparr>email := e, password := p, phone := ph, birthdate := b\<rparr>
                     else m) (members s)"
  have "distinct (map iid ?ms)"
    using assms(1) by (simp only: map_iid_update schema_ok_def)
  moreover have "distinct (map username ?ms)"
    using assms(1) by (simp only: map_username_update schema_ok_def)
  moreover have "distinct (map email ?ms)"
    using assms by (intro distinct_email_update) (simp_all add: schema_ok_def)
  moreover have "list_all (\<lambda>m. iid m \<le> autoinc s) ?ms"
    using assms(1) by (auto simp: schema_ok_def list_all_iff)
  ultimately show ?thesis
    by (simp add: schema_ok_def del: map_map)
qed

lemma schema_ok_edit_profile:
  assumes "schema_ok s"
  shows "schema_ok (fst (edit_profile s i meth f))"
proof (cases meth)
  case GET
  with assms show ?thesis
    by (simp add: edit_profile_def split: option.splits)
next
  case POST
  show ?thesis
    using assms unfolding POST edit_profile_post
    by (simp add: schema_ok_update del: map_map)
qed

lemma schema_ok_delete_user: "schema_ok s \<Longrightarrow> schema_ok (fst (delete_user s i))"
  by (auto simp: schema_ok_def delete_user_def delete_member_def distinct_map_filter
      list_all_iff)

lemma schema_ok_handle: "schema_ok s \<Longrightarrow> schema_ok (fst (handle s r))"
  by (cases r) (simp_all add: schema_ok_register schema_ok_edit_profile schema_ok_delete_user)

lemma schema_ok_run: "schema_ok s \<Longrightarrow> schema_ok (run s rs)"
  by (induction rs arbitrary: s) (simp_all add: schema_ok_handle)

section \<open>Where the rows of a later database come from\<close>

lemma handle_row_origin:
  assumes "m' \<in> set (members (fst (handle s r)))"
  shows "(\<exists>m \<in> set (members s). iid m = iid m' \<and> username m = username m')
         \<or> autoinc s < iid m'"
proof (cases r)
  case (Register_req meth f)
  show ?thesis
  proof (cases meth)
    case GET
    with assms Register_req show ?thesis
      by (auto simp: register_def)
  next
    case POST
    with assms Register_req next_iid_gt_autoinc[of s] show ?thesis
      by (auto simp: register_post split: if_splits)
  qed
next
  case (Edit_profile_req i meth f)
  show ?thesis
  proof (cases meth)
    case GET
    with assms Edit_profile_req show ?thesis
      by (auto simp: edit_profile_def split: option.splits if_splits)
  next
    case POST
    with assms Edit_profile_req show ?thesis
      by (auto simp: edit_profile_post split: if_splits)
  qed
next
  case (Delete_req i)
  with assms show ?thesis
    by (auto simp: delete_user_def delete_member_def split: if_splits)
qed (use assms in auto)

lemma autoinc_handle: "autoinc s \<le> autoinc (fst (handle s r))"
proof (cases r)
  case (Register_req meth f)
  show ?thesis
  proof (cases meth)
    case GET
    with Register_req show ?thesis by (simp add: register_def)
  next
    case POST
    with Register_req next_iid_gt_autoinc[of s] show ?thesis
      by (simp add: register_post)
  qed
next
  case (Edit_profile_req i meth f)
  show ?thesis
  proof (cases meth)
    case GET
    with Edit_profile_req show ?thesis
      by (simp add: edit_profile_def split: option.splits)
  next
    case POST
    with Edit_profile_req show ?thesis
      by (simp add: edit_profile_post)
  qed
next
  case (Delete_req i)
  then show ?thesis
    by (simp add: delete_user_def delete_member_def)
qed simp_all

lemma run_row_origin:
  "m' \<in> set (members (run s rs)) \<Longrightarrow>
     (\<exists>m \<in> set (members s). iid m = iid m' \<and> username m = username m')
     \<or> autoinc s < iid m'"
proof (induction rs arbitrary: s)
  case Nil
  then show ?case by auto
next
  case (Cons r rs)
  let ?t = "fst (handle s r)"
  from Cons.prems have "m' \<in> set (members (run ?t rs))" by simp
  from Cons.IH[OF this]
  consider (old) m where "m \<in> set (members ?t)" "iid m = iid m'" "username m = username m'"
    | (new) "autoinc ?t < iid m'"
    by blast
  then show ?case
  proof cases
    case old
    from handle_row_origin[OF old(1)] old(2,3) show ?thesis
      by auto
  next
    case new
    with autoinc_handle[of s r] show ?thesis
      by simp
  qed
qed

lemma run_keeps_username:
  assumes "schema_ok s"
      and "m1 \<in> set (members s)"
      and "m2 \<in> set (members (run s rs))"
      and "iid m2 = iid m1"
  shows "username m2 = username m1"
proof -
  from assms(1) have ids: "inj_on iid (set (members s))"
    and bound: "list_all (\<lambda>m. iid m \<le> autoinc s) (members s)"
    by (simp_all add: schema_ok_def distinct_map)
  from bound assms(2) have "iid m1 \<le> autoinc s"
    by (simp add: list_all_iff)
  with run_row_origin[OF assms(3)] assms(4)
  obtain m where m: "m \<in> set (members s)" "iid m = iid m2" "username m = username m2"
    by auto
  with ids assms(2,4) have "m = m1"
    by (auto dest: inj_onD)
  with m(3) show ?thesis by simp
qed

section \<open>The nullable columns\<close>

lemma strings_present_handle:
  assumes "strings_present s"
  shows "strings_present (fst (handle s r))"
proof (cases r)
  case (Register_req meth f)
  show ?thesis
  proof (cases meth)
    case GET
    with assms Register_req show ?thesis by (simp add: register_def)
  next
    case POST
    with assms Register_req show ?thesis
      by (simp add: register_post strings_present_def)
  qed
next
  case (Edit_profile_req i meth f)
  show ?thesis
  proof (cases meth)
    case GET
    with assms Edit_profile_req show ?thesis
      by (simp add: edit_profile_def split: option.splits)
  next
    case POST
    with assms Edit_profile_req show ?thesis
      by (auto simp: edit_profile_post strings_present_def list_all_iff)
  qed
next
  case (Delete_req i)
  with assms show ?thesis
    by (auto simp: delete_user_def delete_member_def strings_present_def list_all_iff)
qed (use assms in simp_all)

lemma strings_present_run: "strings_present s \<Longrightarrow> strings_present (run s rs)"
  by (induction rs arbitrary: s) (simp_all add: strings_present_handle)

section \<open>Evaluating the examples\<close>

lemmas eval_simps =
  field_def form_get_def strip_def isspace_def of_ascii_def init_db_def next_iid_def
  select_by_username_def select_by_credentials_def select_by_iid_def select_email_other_def
  insert_member_def update_member_def delete_member_def
  register_def login_def edit_profile_def delete_user_def binds_iid_def

lemma alice_bob_db_eq:
  "alice_bob_db =
     \<lparr>members =
        [\<lparr>iid = 1, username = of_ascii ''alice'', email = of_ascii ''a@x.com'',
          password = of_ascii ''p1'', phone = Some [], birthdate = Some []\<rparr>,
         \<lparr>iid = 2, username = of_ascii ''bob'', email = of_ascii ''b@x.com'',
          password = of_ascii ''p2'', phone = Some [], birthdate = Some []\<rparr>],
      autoinc = 2\<rparr>"
  by (simp add: eval_simps alice_bob_db_def alice_form_def bob_form_def)

lemma schema_ok_alice_bob_db: "schema_ok alice_bob_db"
  unfolding alice_bob_db_def by (rule schema_ok_run[OF schema_ok_init_db])

section \<open>Registration followed by login\<close>

text \<open>
  Claim C1. When the trimmed username, email and password of a registration form are
  non-empty and the username and the email are held by no stored member, a POST to
  \<open>/register\<close> appends exactly one row, which holds the trimmed fields under a row id
  that no stored row has, and redirects to the login view; a POST to \<open>/login\<close> with
  the same email and password then renders the welcome view with that username and
  that row id.
\<close>

theorem C1_register_then_login:
  assumes "field f ''username'' \<noteq> []"
      and "field f ''email'' \<noteq> []"
      and "field f ''password'' \<noteq> []"
      and "field f ''username'' \<notin> set (map username (members s))"
      and "field f ''email'' \<notin> set (map email (members s))"
      and "field g ''email'' = field f ''email''"
      and "field g ''password'' = field f ''password''"
  shows "register s POST f =
           (\<lparr>members = members s @
               [\<lparr>iid = next_iid s, username = field f ''username'',
                 email = field f ''email'', password = field f ''password'',
                 phone = Some (field f ''phone''),
                 birthdate = Some (field f ''birthdate'')\<rparr>],
             autoinc = next_iid s\<rparr>,
            Redirect Login_url)
         \<and> next_iid s \<notin> set (map iid (members s))
         \<and> login (fst (register s POST f)) POST g =
             Render (Welcome_html (field f ''username'') (next_iid s))"
proof -
  have no_old: "find (\<lambda>m. email m = field f ''email'' \<and> password m = field f ''password'')
                  (members s) = None"
    using assms(5) by (force simp: find_None_iff)
  have "login (fst (register s POST f)) POST g =
          Render (Welcome_html (field f ''username'') (next_iid s))"
    using assms no_old
    by (simp add: register_post login_def select_by_credentials_def find_append)
  then show ?thesis
    using assms next_iid_fresh[of s] by (simp add: register_post)
qed

theorem C1_register_then_login_witness:
  "field alice_form ''username'' \<noteq> [] \<and> field alice_form ''email'' \<noteq> [] \<and>
   field alice_form ''password'' \<noteq> [] \<and>
   field alice_form ''username'' \<notin> set (map username (members init_db)) \<and>
   field alice_form ''email'' \<notin> set (map email (members init_db)) \<and>
   field alice_login ''email'' = field alice_form ''email'' \<and>
   field alice_login ''password'' = field alice_form ''password'' \<and>
   register init_db POST alice_form =
     (\<lparr>members = [\<lparr>iid = 1, username = of_ascii ''alice'', email = of_ascii ''a@x.com'',
                    password = of_ascii ''p1'', phone = Some [], birthdate = Some []\<rparr>],
       autoinc = 1\<rparr>,
      Redirect Login_url) \<and>
   login (fst (register init_db POST alice_form)) POST alice_login =
     Render (Welcome_html (of_ascii ''alice'') 1)"
proof -
  have h1: "field alice_form ''username'' \<noteq> []"
   and h2: "field alice_form ''email'' \<noteq> []"
   and h3: "field alice_form ''password'' \<noteq> []"
   and h4: "field alice_form ''username'' \<notin> set (map username (members init_db))"
   and h5: "field alice_form ''email'' \<notin> set (map email (members init_db))"
   and h6: "field alice_login ''email'' = field alice_form ''email''"
   and h7: "field alice_login ''password'' = field alice_form ''password''"
    by (simp_all add: eval_simps alice_form_def alice_login_def)
  have vals: "field alice_form ''username'' = of_ascii ''alice''"
    "field alice_form ''email'' = of_ascii ''a@x.com''"
    "field alice_form ''password'' = of_ascii ''p1''"
    "field alice_form ''phone'' = []" "field alice_form ''birthdate'' = []"
    "next_iid init_db = 1" "members init_db = []"
    by (simp_all add: eval_simps alice_form_def alice_login_def)
  note inst = C1_register_then_login[OF h1 h2 h3 h4 h5 h6 h7, unfolded vals]
  from inst have reg: "register init_db POST alice_form =
     (\<lparr>members = [\<lparr>iid = 1, username = of_ascii ''alice'', email = of_ascii ''a@x.com'',
                    password = of_ascii ''p1'', phone = Some [], birthdate = Some []\<rparr>],
       autoinc = 1\<rparr>,
      Redirect Login_url)"
    by simp
  from inst have log: "login (fst (register init_db POST alice_form)) POST alice_login =
     Render (Welcome_html (of_ascii ''alice'') 1)"
    by (elim conjE)
  from h1 h2 h3 h4 h5 h6 h7 reg log show ?thesis
    by blast
qed

section \<open>Uniqueness of usernames and emails\<close>

text \<open>
  Claim C2. Starting from the empty database, after any sequence of requests (among
  them register, edit_profile and delete_user) no two stored rows have the same
  username and no two stored rows have the same email.
\<close>

theorem C2_unique_username_email:
  "distinct (map username (members (run init_db rs))) \<and>
   distinct (map email (members (run init_db rs)))"
  using schema_ok_run[OF schema_ok_init_db, of rs] by (simp add: schema_ok_def)

theorem C2_unique_username_email_witness:
  "distinct (map username (members alice_bob_db)) \<and>
   distinct (map email (members alice_bob_db))"
  unfolding alice_bob_db_def
  by (rule C2_unique_username_email)

section \<open>The order of the checks of registration\<close>

text \<open>
  Claim C3. A POST to \<open>/register\<close> applies its checks in this order: when the trimmed
  username, email or password is empty it redirects to the error view with the message
  asking for the three fields; otherwise, when the username is stored already, with the
  message that the username exists; otherwise it attempts the insertion, and the
  uniqueness failure, which then can only come from the email, gives the message that
  the email is in use; otherwise the row is inserted and the handler redirects to the
  login view.
\<close>

theorem C3_register_check_order:
  "register s POST f =
     (if field f ''username'' = [] \<or> field f ''email'' = [] \<or> field f ''password'' = []
      then (s, Redirect (Error_url msg_register_required))
      else if field f ''username'' \<in> set (map username (members s))
      then (s, Redirect (Error_url msg_username_exists))
      else if field f ''email'' \<in> set (map email (members s))
      then (s, Redirect (Error_url msg_email_in_use))
      else (\<lparr>members = members s @
                [\<lparr>iid = next_iid s, username = field f ''username'',
                  email = field f ''email'', password = field f ''password'',
                  phone = Some (field f ''phone''),
                  birthdate = Some (field f ''birthdate'')\<rparr>],
              autoinc = next_iid s\<rparr>,
            Redirect Login_url))"
proof (cases "field f ''username'' \<in> set (map username (members s))")
  case True
  then obtain m where "select_by_username s (field f ''username'') = Some m"
    using select_by_username_None[of s "field f ''username''"] by auto
  with True show ?thesis
    by (simp add: register_def Let_def)
next
  case False
  then have "select_by_username s (field f ''username'') = None"
    by (simp add: select_by_username_None)
  with False show ?thesis
    by (simp add: register_def insert_member_def Let_def)
qed

theorem C3_register_check_order_witness:
  "register (run init_db [Register_req POST bob_form]) POST carol_form =
     (run init_db [Register_req POST bob_form], Redirect (Error_url msg_email_in_use))"
proof -
  have vals: "field carol_form ''username'' = of_ascii ''carol''"
    "field carol_form ''email'' = of_ascii ''b@x.com''"
    "field carol_form ''password'' = of_ascii ''p3''"
    by (simp_all add: eval_simps carol_form_def)
  have st: "members (run init_db [Register_req POST bob_form]) =
     [\<lparr>iid = 1, username = of_ascii ''bob'', email = of_ascii ''b@x.com'',
       password = of_ascii ''p2'', phone = Some [], birthdate = Some []\<rparr>]"
    by (simp add: eval_simps bob_form_def)
  show ?thesis
    using C3_register_check_order[of "run init_db [Register_req POST bob_form]" carol_form]
    unfolding vals st by (simp add: of_ascii_def)
qed

section \<open>Editing a profile\<close>

text \<open>
  Claim C4, as written, fails on a POST without a password: the handler rejects it for
  the missing field before it looks at the email, whether the email belongs to another
  member or to the member itself.
\<close>

theorem C4_counterexample:
  "select_by_iid alice_bob_db 1 \<noteq> None \<and>
   select_email_other alice_bob_db (field edit_taken_no_password_form ''email'') 1 \<noteq> None \<and>
   edit_profile alice_bob_db 1 POST edit_taken_no_password_form =
     (alice_bob_db, Render (Error_html msg_email_password_required)) \<and>
   select_email_other alice_bob_db (field edit_own_no_password_form ''email'') 1 = None \<and>
   edit_profile alice_bob_db 1 POST edit_own_no_password_form =
     (alice_bob_db, Render (Error_html msg_email_password_required)) \<and>
   msg_email_password_required \<noteq> msg_email_in_use"
  by (simp add: alice_bob_db_eq eval_simps edit_taken_no_password_form_def
      edit_own_no_password_form_def
      msg_email_password_required_def msg_email_in_use_def)

text \<open>
  Claim C4, amended. For a stored member with id \<open>i\<close> and a POST to
  \<open>/edit_profile/i\<close> whose trimmed email and password are non-empty: when the email is
  held by a member with another id the handler renders the error view with the message
  that the email is in use and the database is unchanged; when no member with another id
  holds it the row \<open>i\<close> is updated and the handler redirects to the welcome view of
  \<open>i\<close>. Under the schema constraints the member's own current email is held by no
  other id, so submitting it succeeds.
\<close>

theorem C4_edit_profile_email_check:
  assumes "m \<in> set (members s)"
      and "iid m = i"
      and "field f ''email'' \<noteq> []"
      and "field f ''password'' \<noteq> []"
  shows "((\<exists>m' \<in> set (members s). email m' = field f ''email'' \<and> iid m' \<noteq> i) \<longrightarrow>
            edit_profile s i POST f = (s, Render (Error_html msg_email_in_use)))
       \<and> (\<not> (\<exists>m' \<in> set (members s). email m' = field f ''email'' \<and> iid m' \<noteq> i) \<longrightarrow>
            edit_profile s i POST f =
              (s\<lparr>members :=
                   map (\<lambda>r. if iid r = i
                             then r\<lparr>email := field f ''email'',
                                    password := field f ''password'',
                                    phone := Some (field f ''phone''),
                                    birthdate := Some (field f ''birthdate'')\<rparr>
                             else r)
                       (members s)\<rparr>,
               Redirect (Welcome_url i)))
       \<and> (schema_ok s \<and> field f ''email'' = email m \<longrightarrow>
            snd (edit_profile s i POST f) = Redirect (Welcome_url i))"
proof -
  have stored: "i \<in> set (map iid (members s))"
    using assms(1,2) by force
  have others: "field f ''email'' \<in> set (map email (filter (\<lambda>r. iid r \<noteq> i) (members s)))
      \<longleftrightarrow> (\<exists>m' \<in> set (members s). email m' = field f ''email'' \<and> iid m' \<noteq> i)"
    by force
  have own: "email m \<notin> set (map email (filter (\<lambda>r. iid r \<noteq> i) (members s)))"
    if ok: "schema_ok s"
  proof
    assume "email m \<in> set (map email (filter (\<lambda>r. iid r \<noteq> i) (members s)))"
    then obtain m' where m': "m' \<in> set (members s)" "iid m' \<noteq> i" "email m' = email m"
      by auto
    from ok have "distinct (map email (members s))"
      by (simp add: schema_ok_def)
    then have "inj_on email (set (members s))"
      by (simp add: distinct_map)
    with m' assms(1) have "m' = m"
      by (auto dest: inj_onD)
    with m'(2) assms(2) show False by simp
  qed
  show ?thesis
    using stored binds_iid_stored[OF stored] assms(3,4) own others
    by (auto simp add: edit_profile_post simp del: set_map set_filter)
qed

theorem C4_edit_profile_email_check_witness:
  "edit_profile alice_bob_db 1 POST edit_taken_form =
     (alice_bob_db, Render (Error_html msg_email_in_use)) \<and>
   edit_profile alice_bob_db 1 POST edit_own_form =
     (\<lparr>members =
         [\<lparr>iid = 1, username = of_ascii ''alice'', email = of_ascii ''a@x.com'',
           password = of_ascii ''n1'', phone = Some (of_ascii ''0912''), birthdate = Some []\<rparr>,
          \<lparr>iid = 2, username = of_ascii ''bob'', email = of_ascii ''b@x.com'',
           password = of_ascii ''p2'', phone = Some [], birthdate = Some []\<rparr>],
       autoinc = 2\<rparr>,
      Redirect (Welcome_url 1))"
proof -
  let ?alice = "\<lparr>iid = 1, username = of_ascii ''alice'', email = of_ascii ''a@x.com'',
                 password = of_ascii ''p1'', phone = Some [], birthdate = Some []\<rparr>"
  have m: "?alice \<in> set (members alice_bob_db)" and i: "iid ?alice = 1"
    by (simp_all add: alice_bob_db_eq)
  have t1: "field edit_taken_form ''email'' \<noteq> []"
   and t2: "field edit_taken_form ''password'' \<noteq> []"
   and o1: "field edit_own_form ''email'' \<noteq> []"
   and o2: "field edit_own_form ''password'' \<noteq> []"
    by (simp_all add: eval_simps edit_taken_form_def edit_own_form_def)
  have taken: "\<exists>m' \<in> set (members alice_bob_db).
      email m' = field edit_taken_form ''email'' \<and> iid m' \<noteq> 1"
    by (simp add: alice_bob_db_eq eval_simps edit_taken_form_def)
  have free: "\<not> (\<exists>m' \<in> set (members alice_bob_db).
      email m' = field edit_own_form ''email'' \<and> iid m' \<noteq> 1)"
    by (simp add: alice_bob_db_eq eval_simps edit_own_form_def)
  have a: "edit_profile alice_bob_db 1 POST edit_taken_form =
     (alice_bob_db, Render (Error_html msg_email_in_use))"
    using C4_edit_profile_email_check[OF m i t1 t2] taken by blast
  have "edit_profile alice_bob_db 1 POST edit_own_form =
     (alice_bob_db\<lparr>members :=
                   map (\<lambda>r. if iid r = 1
                             then r\<lparr>email := field edit_own_form ''email'',
                                    password := field edit_own_form ''password'',
                                    phone := Some (field edit_own_form ''phone''),
                                    birthdate := Some (field edit_own_form ''birthdate'')\<rparr>
                             else r)
                       (members alice_bob_db)\<rparr>,
               Redirect (Welcome_url 1))"
    using C4_edit_profile_email_check[OF m i o1 o2] free by blast
  then have b: "edit_profile alice_bob_db 1 POST edit_own_form =
     (\<lparr>members =
         [\<lparr>iid = 1, username = of_ascii ''alice'', email = of_ascii ''a@x.com'',
           password = of_ascii ''n1'', phone = Some (of_ascii ''0912''), birthdate = Some []\<rparr>,
          \<lparr>iid = 2, username = of_ascii ''bob'', email = of_ascii ''b@x.com'',
           password = of_ascii ''p2'', phone = Some [], birthdate = Some []\<rparr>],
       autoinc = 2\<rparr>,
      Redirect (Welcome_url 1))"
    by (simp add: alice_bob_db_eq field_def form_get_def strip_def isspace_def of_ascii_def
        edit_own_form_def)
  from a b show ?thesis by blast
qed

section \<open>Registering a stored username\<close>

text \<open>
  Claim C5, as written, fails for a choice of the other fields that leaves the password
  out: the stored username \<open>bob\<close> is then answered with the message asking for the
  required fields, not with the message that the username exists.
\<close>

theorem C5_counterexample:
  "field bob_no_password_form ''username'' \<in> set (map username (members alice_bob_db)) \<and>
   register alice_bob_db POST bob_no_password_form =
     (alice_bob_db, Redirect (Error_url msg_register_required)) \<and>
   msg_register_required \<noteq> msg_username_exists"
  by (simp add: alice_bob_db_eq register_post eval_simps bob_no_password_form_def
      msg_register_required_def msg_username_exists_def)

text \<open>
  Claim C5, amended. When the trimmed username of a registration is stored already and
  the trimmed username, email and password are non-empty, the handler redirects to the
  error view with the message that the username exists and the database is unchanged,
  whatever the email, password, phone and birthdate are otherwise.
\<close>

theorem C5_duplicate_username:
  assumes "field f ''username'' \<in> set (map username (members s))"
      and "field f ''username'' \<noteq> []"
      and "field f ''email'' \<noteq> []"
      and "field f ''password'' \<noteq> []"
  shows "register s POST f = (s, Redirect (Error_url msg_username_exists))"
  using assms by (simp add: register_post)

theorem C5_duplicate_username_witness:
  "field bob_again_form ''username'' \<in> set (map username (members alice_bob_db)) \<and>
   field bob_again_form ''username'' \<noteq> [] \<and>
   field bob_again_form ''email'' \<noteq> [] \<and>
   field bob_again_form ''password'' \<noteq> [] \<and>
   register alice_bob_db POST bob_again_form =
     (alice_bob_db, Redirect (Error_url msg_username_exists))"
proof -
  have h1: "field bob_again_form ''username'' \<in> set (map username (members alice_bob_db))"
   and h2: "field bob_again_form ''username'' \<noteq> []"
   and h3: "field bob_again_form ''email'' \<noteq> []"
   and h4: "field bob_again_form ''password'' \<noteq> []"
    by (simp_all add: alice_bob_db_eq eval_simps bob_again_form_def)
  from h1 h2 h3 h4 C5_duplicate_username[OF h1 h2 h3 h4] show ?thesis
    by blast
qed

section \<open>Registering a stored email\<close>

text \<open>
  Claim C6, as written, fails for a registration with a new username and a stored email
  that leaves the password out: it is answered with the message asking for the required
  fields.
\<close>

theorem C6_counterexample:
  "field carol_no_password_form ''username'' \<notin> set (map username (members alice_bob_db)) \<and>
   field carol_no_password_form ''email'' \<in> set (map email (members alice_bob_db)) \<and>
   register alice_bob_db POST carol_no_password_form =
     (alice_bob_db, Redirect (Error_url msg_register_required)) \<and>
   msg_register_required \<noteq> msg_email_in_use"
  by (simp add: alice_bob_db_eq register_post eval_simps carol_no_password_form_def
      msg_register_required_def msg_email_in_use_def)

text \<open>
  Claim C6, amended. When the trimmed username, email and password of a registration
  are non-empty, the username is not stored and the email is stored, the lookup of the
  username finds nothing, the insertion fails on the uniqueness constraint, and the
  handler redirects to the error view with the message that the email is in use; the
  database is unchanged.
\<close>

theorem C6_duplicate_email:
  assumes "field f ''username'' \<notin> set (map username (members s))"
      and "field f ''email'' \<in> set (map email (members s))"
      and "field f ''username'' \<noteq> []"
      and "field f ''email'' \<noteq> []"
      and "field f ''password'' \<noteq> []"
  shows "select_by_username s (field f ''username'') = None \<and>
         insert_member s (field f ''username'') (field f ''email'') (field f ''password'')
           (field f ''phone'') (field f ''birthdate'') = Inl IntegrityError \<and>
         register s POST f = (s, Redirect (Error_url msg_email_in_use))"
  using assms by (simp add: register_post select_by_username_None insert_member_def)

theorem C6_duplicate_email_witness:
  "field carol_form ''username'' \<notin> set (map username (members alice_bob_db)) \<and>
   field carol_form ''email'' \<in> set (map email (members alice_bob_db)) \<and>
   field carol_form ''username'' \<noteq> [] \<and>
   field carol_form ''email'' \<noteq> [] \<and>
   field carol_form ''password'' \<noteq> [] \<and>
   register alice_bob_db POST carol_form =
     (alice_bob_db, Redirect (Error_url msg_email_in_use))"
proof -
  have h1: "field carol_form ''username'' \<notin> set (map username (members alice_bob_db))"
   and h2: "field carol_form ''email'' \<in> set (map email (members alice_bob_db))"
   and h3: "field carol_form ''username'' \<noteq> []"
   and h4: "field carol_form ''email'' \<noteq> []"
   and h5: "field carol_form ''password'' \<noteq> []"
    by (simp_all add: alice_bob_db_eq eval_simps carol_form_def)
  from h1 h2 h3 h4 h5 C6_duplicate_email[OF h1 h2 h3 h4 h5] show ?thesis
    by blast
qed

section \<open>Failed logins\<close>

text \<open>
  Claim C7, as written, fails when one of the two attempts leaves a field empty: a
  stored email with a wrong password gets the credential message, an unknown email
  without a password gets the message asking for email and password.
\<close>

theorem C7_counterexample:
  "field wrong_password_login ''email'' \<in> set (map email (members alice_bob_db)) \<and>
   select_by_credentials alice_bob_db (field wrong_password_login ''email'')
     (field wrong_password_login ''password'') = None \<and>
   field unknown_email_no_password_login ''email'' \<notin> set (map email (members alice_bob_db)) \<and>
   login alice_bob_db POST wrong_password_login = Redirect (Error_url msg_bad_credentials) \<and>
   login alice_bob_db POST unknown_email_no_password_login =
     Redirect (Error_url msg_email_password_required) \<and>
   msg_email_password_required \<noteq> msg_bad_credentials"
  by (simp add: alice_bob_db_eq eval_simps wrong_password_login_def
      unknown_email_no_password_login_def
      msg_email_password_required_def msg_bad_credentials_def)

text \<open>
  Claim C7, amended. Of two login attempts on the same database whose trimmed email
  and password are all non-empty, one with the email of a stored member and a password
  that is not that member's, the other with an email that no member has, both get the
  same response: the redirect to the error view with the credential message.
\<close>

theorem C7_login_failure_parity:
  assumes "schema_ok s"
      and "m \<in> set (members s)"
      and "field f1 ''email'' = email m"
      and "field f1 ''password'' \<noteq> password m"
      and "field f1 ''email'' \<noteq> []"
      and "field f1 ''password'' \<noteq> []"
      and "field f2 ''email'' \<notin> set (map email (members s))"
      and "field f2 ''email'' \<noteq> []"
      and "field f2 ''password'' \<noteq> []"
  shows "login s POST f1 = Redirect (Error_url msg_bad_credentials) \<and>
         login s POST f2 = login s POST f1"
proof -
  from assms(1) have "distinct (map email (members s))"
    by (simp add: schema_ok_def)
  then have inj: "inj_on email (set (members s))"
    by (simp add: distinct_map)
  have "select_by_credentials s (field f1 ''email'') (field f1 ''password'') = None"
    unfolding select_by_credentials_def find_None_iff
  proof
    assume "\<exists>x. x \<in> set (members s) \<and>
      email x = field f1 ''email'' \<and> password x = field f1 ''password''"
    then obtain x where x: "x \<in> set (members s)" "email x = field f1 ''email''"
      "password x = field f1 ''password''"
      by blast
    from inj x(1,2) assms(2,3) have "x = m"
      by (auto dest: inj_onD)
    with x(3) assms(4) show False by simp
  qed
  then have first: "login s POST f1 = Redirect (Error_url msg_bad_credentials)"
    using assms(5,6) by (simp add: login_def)
  have "select_by_credentials s (field f2 ''email'') (field f2 ''password'') = None"
    using assms(7) by (force simp: select_by_credentials_def find_None_iff)
  then have "login s POST f2 = Redirect (Error_url msg_bad_credentials)"
    using assms(8,9) by (simp add: login_def)
  with first show ?thesis by simp
qed

theorem C7_login_failure_parity_witness:
  "schema_ok alice_bob_db \<and>
   alice_row \<in> set (members alice_bob_db) \<and>
   field wrong_password_login ''email'' = email alice_row \<and>
   field wrong_password_login ''password'' \<noteq> password alice_row \<and>
   field wrong_password_login ''email'' \<noteq> [] \<and>
   field wrong_password_login ''password'' \<noteq> [] \<and>
   field unknown_email_login ''email'' \<notin> set (map email (members alice_bob_db)) \<and>
   field unknown_email_login ''email'' \<noteq> [] \<and>
   field unknown_email_login ''password'' \<noteq> [] \<and>
   login alice_bob_db POST wrong_password_login = Redirect (Error_url msg_bad_credentials) \<and>
   login alice_bob_db POST unknown_email_login = login alice_bob_db POST wrong_password_login"
proof -
  have h2: "alice_row \<in> set (members alice_bob_db)"
   and h3: "field wrong_password_login ''email'' = email alice_row"
   and h4: "field wrong_password_login ''password'' \<noteq> password alice_row"
   and h5: "field wrong_password_login ''email'' \<noteq> []"
   and h6: "field wrong_password_login ''password'' \<noteq> []"
   and h7: "field unknown_email_login ''email'' \<notin> set (map email (members alice_bob_db))"
   and h8: "field unknown_email_login ''email'' \<noteq> []"
   and h9: "field unknown_email_login ''password'' \<noteq> []"
    by (simp_all add: alice_bob_db_eq alice_row_def field_def form_get_def strip_def
        isspace_def of_ascii_def wrong_password_login_def
        unknown_email_login_def)
  from schema_ok_alice_bob_db h2 h3 h4 h5 h6 h7 h8 h9
    C7_login_failure_parity[OF schema_ok_alice_bob_db h2 h3 h4 h5 h6 h7 h8 h9]
  show ?thesis by blast
qed

section \<open>Deleting a member\<close>

text \<open>
  For an id that can be bound, \<open>/delete/<id>\<close> removes the rows with that id, leaves
  every other row and the row-id counter as they were and redirects to the home view;
  when no row has the id the database is unchanged.
\<close>

lemma delete_user_bound:
  assumes "i < 2 ^ 63"
  shows "delete_user s i =
           (s\<lparr>members := filter (\<lambda>m. iid m \<noteq> i) (members s)\<rparr>, Redirect Index_url)"
    and "i \<notin> set (map iid (members s)) \<Longrightarrow> delete_user s i = (s, Redirect Index_url)"
    and "delete_user (fst (delete_user s i)) i = delete_user s i"
proof -
  have absent: "filter (\<lambda>m. iid m \<noteq> i) (members s) = members s"
    if "i \<notin> set (map iid (members s))"
    using that by (auto simp: filter_id_conv)
  from assms have binds: "binds_iid t i" for t
    by (simp add: binds_iid_def)
  show "delete_user s i =
           (s\<lparr>members := filter (\<lambda>m. iid m \<noteq> i) (members s)\<rparr>, Redirect Index_url)"
    by (simp add: delete_user_def delete_member_def binds)
  show "delete_user s i = (s, Redirect Index_url)" if "i \<notin> set (map iid (members s))"
    using absent[OF that] by (simp add: delete_user_def delete_member_def binds)
  show "delete_user (fst (delete_user s i)) i = delete_user s i"
    by (simp add: delete_user_def delete_member_def binds)
qed

text \<open>
  Claim C8 says that \<open>/delete/<id>\<close> redirects to the home view for every id, also when
  no row has the id. The route accepts the id \<open>2 ^ 63\<close>, and for it the handler raises
  \<open>OverflowError\<close> when it binds the id to the DELETE statement: the database is
  unchanged, but the request ends with the exception and not with the redirect that
  the claim and the handler's own docstring promise.
\<close>

theorem C8_delete_user_overflow:
  "delete_user alice_bob_db (2 ^ 63) = (alice_bob_db, Uncaught OverflowError)"
  by (simp add: delete_user_def binds_iid_def alice_bob_db_eq)

section \<open>Usernames and row ids never change\<close>

text \<open>
  Claim C9. A successful POST to \<open>/edit_profile/i\<close> changes only the email, password,
  phone and birthdate of the rows with id \<open>i\<close>: the row ids and the usernames of the
  table are as before. And over any run from the empty database, a row that is stored
  under some id at one time and a row stored under the same id at any later time have
  the same username.
\<close>

theorem C9_username_iid_immutable:
  "(snd (edit_profile s i POST f) = Redirect (Welcome_url i) \<longrightarrow>
      fst (edit_profile s i POST f) =
        s\<lparr>members :=
            map (\<lambda>r. if iid r = i
                      then r\<lparr>email := field f ''email'', password := field f ''password'',
                             phone := Some (field f ''phone''),
                             birthdate := Some (field f ''birthdate'')\<rparr>
                      else r)
                (members s)\<rparr>
      \<and> map iid (members (fst (edit_profile s i POST f))) = map iid (members s)
      \<and> map username (members (fst (edit_profile s i POST f))) = map username (members s))
   \<and> (\<forall>m1 \<in> set (members (run init_db rs)).
        \<forall>m2 \<in> set (members (run (run init_db rs) rs')).
          iid m2 = iid m1 \<longrightarrow> username m2 = username m1)"
proof -
  have frame: "map iid (members (fst (edit_profile s i POST f))) = map iid (members s)
      \<and> map username (members (fst (edit_profile s i POST f))) = map username (members s)"
    by (simp add: edit_profile_post map_iid_update map_username_update del: map_map)
  have edit: "fst (edit_profile s i POST f) =
        s\<lparr>members :=
            map (\<lambda>r. if iid r = i
                      then r\<lparr>email := field f ''email'', password := field f ''password'',
                             phone := Some (field f ''phone''),
                             birthdate := Some (field f ''birthdate'')\<rparr>
                      else r)
                (members s)\<rparr>"
    if "snd (edit_profile s i POST f) = Redirect (Welcome_url i)"
    using that by (simp add: edit_profile_post split: if_splits)
  have later: "username m2 = username m1"
    if "m1 \<in> set (members (run init_db rs))"
      and "m2 \<in> set (members (run (run init_db rs) rs'))"
      and "iid m2 = iid m1" for m1 m2
    using run_keeps_username[OF schema_ok_run[OF schema_ok_init_db] that] .
  from frame edit later show ?thesis
    by blast
qed

theorem C9_username_iid_immutable_witness:
  "alice_row \<in> set (members (run init_db [Register_req POST alice_form, Register_req POST bob_form])) \<and>
   alice_edited_row \<in> set (members
      (run (run init_db [Register_req POST alice_form, Register_req POST bob_form])
           [Edit_profile_req 1 POST edit_own_form, Delete_req 2])) \<and>
   iid alice_edited_row = iid alice_row \<and>
   username alice_edited_row = username alice_row"
proof -
  let ?rs = "[Register_req POST alice_form, Register_req POST bob_form]"
  let ?rs' = "[Edit_profile_req 1 POST edit_own_form, Delete_req 2]"
  have before: "run init_db ?rs = alice_bob_db"
    by (simp only: alice_bob_db_def)
  have h1: "alice_row \<in> set (members (run init_db ?rs))"
    unfolding before by (simp add: alice_bob_db_eq alice_row_def)
  have h2: "alice_edited_row \<in> set (members (run (run init_db ?rs) ?rs'))"
    unfolding before
    by (simp add: alice_bob_db_eq alice_edited_row_def edit_profile_post delete_user_def
        delete_member_def binds_iid_def field_def form_get_def strip_def isspace_def of_ascii_def
        edit_own_form_def)
  have h3: "iid alice_edited_row = iid alice_row"
    by (simp add: alice_row_def alice_edited_row_def)
  from C9_username_iid_immutable[of _ _ _ ?rs ?rs'] h1 h2 h3
  have "username alice_edited_row = username alice_row"
    by blast
  with h1 h2 h3 show ?thesis by blast
qed

section \<open>Phone and birthdate are always strings\<close>

lemma alice_phone_db_eq:
  "alice_phone_db = \<lparr>members = [alice_edited_row, bob_row], autoinc = 2\<rparr>"
proof -
  have "alice_phone_db = fst (edit_profile alice_bob_db 1 POST edit_own_form)"
    by (simp add: alice_phone_db_def alice_bob_db_def)
  then show ?thesis
    by (simp add: alice_bob_db_eq edit_profile_post binds_iid_def field_def form_get_def
        strip_def isspace_def of_ascii_def edit_own_form_def alice_edited_row_def bob_row_def)
qed

text \<open>
  Claim C10. When the form has no \<open>phone\<close> (or no \<open>birthdate\<close>) field, a registration
  that passes its checks appends a row with the empty string in that column, and a
  profile edit of a stored member that passes its checks writes the empty string into
  that column of the member's row; and in every database reached from the empty one no
  row holds NULL in either column.
\<close>

theorem C10_optional_fields_are_strings:
  "(field f ''username'' \<noteq> [] \<and> field f ''email'' \<noteq> [] \<and> field f ''password'' \<noteq> [] \<and>
    field f ''username'' \<notin> set (map username (members s)) \<and>
    field f ''email'' \<notin> set (map email (members s)) \<and>
    map_of f ''phone'' = None \<longrightarrow>
      members (fst (register s POST f)) =
        members s @
          [\<lparr>iid = next_iid s, username = field f ''username'', email = field f ''email'',
            password = field f ''password'', phone = Some [],
            birthdate = Some (field f ''birthdate'')\<rparr>])
   \<and> (field f ''username'' \<noteq> [] \<and> field f ''email'' \<noteq> [] \<and> field f ''password'' \<noteq> [] \<and>
    field f ''username'' \<notin> set (map username (members s)) \<and>
    field f ''email'' \<notin> set (map email (members s)) \<and>
    map_of f ''birthdate'' = None \<longrightarrow>
      members (fst (register s POST f)) =
        members s @
          [\<lparr>iid = next_iid s, username = field f ''username'', email = field f ''email'',
            password = field f ''password'', phone = Some (field f ''phone''),
            birthdate = Some []\<rparr>])
   \<and> (i \<in> set (map iid (members s)) \<and>
      field f ''email'' \<noteq> [] \<and> field f ''password'' \<noteq> [] \<and>
      \<not> (\<exists>m' \<in> set (members s). email m' = field f ''email'' \<and> iid m' \<noteq> i) \<and>
      map_of f ''phone'' = None \<longrightarrow>
        members (fst (edit_profile s i POST f)) =
          map (\<lambda>r. if iid r = i
                    then r\<lparr>email := field f ''email'', password := field f ''password'',
                           phone := Some [], birthdate := Some (field f ''birthdate'')\<rparr>
                    else r)
              (members s))
   \<and> (i \<in> set (map iid (members s)) \<and>
      field f ''email'' \<noteq> [] \<and> field f ''password'' \<noteq> [] \<and>
      \<not> (\<exists>m' \<in> set (members s). email m' = field f ''email'' \<and> iid m' \<noteq> i) \<and>
      map_of f ''birthdate'' = None \<longrightarrow>
        members (fst (edit_profile s i POST f)) =
          map (\<lambda>r. if iid r = i
                    then r\<lparr>email := field f ''email'', password := field f ''password'',
                           phone := Some (field f ''phone''), birthdate := Some []\<rparr>
                    else r)
              (members s))
   \<and> (\<forall>m \<in> set (members (run init_db rs)). phone m \<noteq> None \<and> birthdate m \<noteq> None)"
proof -
  have reg: "members (fst (register s POST f)) =
        members s @
          [\<lparr>iid = next_iid s, username = field f ''username'', email = field f ''email'',
            password = field f ''password'', phone = Some (field f ''phone''),
            birthdate = Some (field f ''birthdate'')\<rparr>]"
    if "field f ''username'' \<noteq> []" "field f ''email'' \<noteq> []" "field f ''password'' \<noteq> []"
      "field f ''username'' \<notin> set (map username (members s))"
      "field f ''email'' \<notin> set (map email (members s))"
    using that by (simp add: register_post)
  have others: "field f ''email'' \<in> set (map email (filter (\<lambda>r. iid r \<noteq> i) (members s)))
      \<longleftrightarrow> (\<exists>m' \<in> set (members s). email m' = field f ''email'' \<and> iid m' \<noteq> i)"
    by force
  have edit: "members (fst (edit_profile s i POST f)) =
          map (\<lambda>r. if iid r = i
                    then r\<lparr>email := field f ''email'', password := field f ''password'',
                           phone := Some (field f ''phone''),
                           birthdate := Some (field f ''birthdate'')\<rparr>
                    else r)
              (members s)"
    if "i \<in> set (map iid (members s))"
      "field f ''email'' \<noteq> []" "field f ''password'' \<noteq> []"
      "\<not> (\<exists>m' \<in> set (members s). email m' = field f ''email'' \<and> iid m' \<noteq> i)"
  proof -
    from that(4) others
    have "field f ''email'' \<notin> set (map email (filter (\<lambda>r. iid r \<noteq> i) (members s)))"
      by blast
    with that(1,2,3) binds_iid_stored[OF that(1)] show ?thesis
      by (simp add: edit_profile_post del: set_map set_filter)
  qed
  have "strings_present init_db"
    by (simp add: strings_present_def init_db_def)
  then have "strings_present (run init_db rs)"
    by (rule strings_present_run)
  then have stored:
    "\<forall>m \<in> set (members (run init_db rs)). phone m \<noteq> None \<and> birthdate m \<noteq> None"
    by (simp add: strings_present_def list_all_iff)
  show ?thesis
  proof (intro conjI impI)
    assume a: "field f ''username'' \<noteq> [] \<and> field f ''email'' \<noteq> [] \<and>
      field f ''password'' \<noteq> [] \<and>
      field f ''username'' \<notin> set (map username (members s)) \<and>
      field f ''email'' \<notin> set (map email (members s)) \<and> map_of f ''phone'' = None"
    then have "field f ''phone'' = []" by (simp add: field_absent)
    with a reg show "members (fst (register s POST f)) =
        members s @
          [\<lparr>iid = next_iid s, username = field f ''username'', email = field f ''email'',
            password = field f ''password'', phone = Some [],
            birthdate = Some (field f ''birthdate'')\<rparr>]"
      by simp
  next
    assume a: "field f ''username'' \<noteq> [] \<and> field f ''email'' \<noteq> [] \<and>
      field f ''password'' \<noteq> [] \<and>
      field f ''username'' \<notin> set (map username (members s)) \<and>
      field f ''email'' \<notin> set (map email (members s)) \<and> map_of f ''birthdate'' = None"
    then have "field f ''birthdate'' = []" by (simp add: field_absent)
    with a reg show "members (fst (register s POST f)) =
        members s @
          [\<lparr>iid = next_iid s, username = field f ''username'', email = field f ''email'',
            password = field f ''password'', phone = Some (field f ''phone''),
            birthdate = Some []\<rparr>]"
      by simp
  next
    assume a: "i \<in> set (map iid (members s)) \<and>
      field f ''email'' \<noteq> [] \<and> field f ''password'' \<noteq> [] \<and>
      \<not> (\<exists>m' \<in> set (members s). email m' = field f ''email'' \<and> iid m' \<noteq> i) \<and>
      map_of f ''phone'' = None"
    then have absent: "field f ''phone'' = []" by (simp add: field_absent)
    from a have "members (fst (edit_profile s i POST f)) =
          map (\<lambda>r. if iid r = i
                    then r\<lparr>email := field f ''email'', password := field f ''password'',
                           phone := Some (field f ''phone''),
                           birthdate := Some (field f ''birthdate'')\<rparr>
                    else r)
              (members s)"
      by (intro edit) simp_all
    then show "members (fst (edit_profile s i POST f)) =
          map (\<lambda>r. if iid r = i
                    then r\<lparr>email := field f ''email'', password := field f ''password'',
                           phone := Some [], birthdate := Some (field f ''birthdate'')\<rparr>
                    else r)
              (members s)"
      by (simp only: absent)
  next
    assume a: "i \<in> set (map iid (members s)) \<and>
      field f ''email'' \<noteq> [] \<and> field f ''password'' \<noteq> [] \<and>
      \<not> (\<exists>m' \<in> set (members s). email m' = field f ''email'' \<and> iid m' \<noteq> i) \<and>
      map_of f ''birthdate'' = None"
    then have absent: "field f ''birthdate'' = []" by (simp add: field_absent)
    from a have "members (fst (edit_profile s i POST f)) =
          map (\<lambda>r. if iid r = i
                    then r\<lparr>email := field f ''email'', password := field f ''password'',
                           phone := Some (field f ''phone''),
                           birthdate := Some (field f ''birthdate'')\<rparr>
                    else r)
              (members s)"
      by (intro edit) simp_all
    then show "members (fst (edit_profile s i POST f)) =
          map (\<lambda>r. if iid r = i
                    then r\<lparr>email := field f ''email'', password := field f ''password'',
                           phone := Some (field f ''phone''), birthdate := Some []\<rparr>
                    else r)
              (members s)"
      by (simp only: absent)
  next
    from stored
    show "\<forall>m \<in> set (members (run init_db rs)). phone m \<noteq> None \<and> birthdate m \<noteq> None" .
  qed
qed

theorem C10_optional_fields_are_strings_witness:
  "map_of alice_form ''phone'' = None \<and> map_of alice_form ''birthdate'' = None \<and>
   members (fst (register init_db POST alice_form)) = [alice_row] \<and>
   map_of edit_plain_form ''phone'' = None \<and> map_of edit_plain_form ''birthdate'' = None \<and>
   members alice_phone_db = [alice_edited_row, bob_row] \<and>
   members (fst (edit_profile alice_phone_db 1 POST edit_plain_form)) =
     [alice_plain_row, bob_row]"
proof -
  note inst_reg =
    C10_optional_fields_are_strings[where f = alice_form and s = init_db, THEN conjunct1]
  note inst_edit =
    C10_optional_fields_are_strings[where f = edit_plain_form and s = alice_phone_db
      and i = 1, THEN conjunct2, THEN conjunct2, THEN conjunct1]
  have r1: "map_of alice_form ''phone'' = None"
   and r2: "map_of alice_form ''birthdate'' = None"
    by (simp_all add: alice_form_def)
  have valid: "field alice_form ''username'' \<noteq> [] \<and> field alice_form ''email'' \<noteq> [] \<and>
      field alice_form ''password'' \<noteq> [] \<and>
      field alice_form ''username'' \<notin> set (map username (members init_db)) \<and>
      field alice_form ''email'' \<notin> set (map email (members init_db))"
    by (simp add: eval_simps alice_form_def)
  from inst_reg valid r1
  have "members (fst (register init_db POST alice_form)) =
        members init_db @
          [\<lparr>iid = next_iid init_db, username = field alice_form ''username'',
            email = field alice_form ''email'', password = field alice_form ''password'',
            phone = Some [], birthdate = Some (field alice_form ''birthdate'')\<rparr>]"
    by blast
  then have reg: "members (fst (register init_db POST alice_form)) = [alice_row]"
    by (simp add: init_db_def next_iid_def field_def form_get_def strip_def isspace_def
        of_ascii_def alice_form_def alice_row_def)
  have e1: "map_of edit_plain_form ''phone'' = None"
   and e2: "map_of edit_plain_form ''birthdate'' = None"
    by (simp_all add: edit_plain_form_def)
  have rows: "members alice_phone_db = [alice_edited_row, bob_row]"
    by (simp add: alice_phone_db_eq)
  have pre: "1 \<in> set (map iid (members alice_phone_db)) \<and>
      field edit_plain_form ''email'' \<noteq> [] \<and> field edit_plain_form ''password'' \<noteq> [] \<and>
      \<not> (\<exists>m' \<in> set (members alice_phone_db).
            email m' = field edit_plain_form ''email'' \<and> iid m' \<noteq> 1)"
    by (simp add: rows alice_edited_row_def bob_row_def field_def form_get_def strip_def
        isspace_def of_ascii_def edit_plain_form_def)
  from inst_edit pre e1
  have "members (fst (edit_profile alice_phone_db 1 POST edit_plain_form)) =
          map (\<lambda>r. if iid r = 1
                    then r\<lparr>email := field edit_plain_form ''email'',
                           password := field edit_plain_form ''password'',
                           phone := Some [],
                           birthdate := Some (field edit_plain_form ''birthdate'')\<rparr>
                    else r)
              (members alice_phone_db)"
    by blast
  then have edit: "members (fst (edit_profile alice_phone_db 1 POST edit_plain_form)) =
      [alice_plain_row, bob_row]"
    by (simp add: rows alice_edited_row_def bob_row_def alice_plain_row_def field_def
        form_get_def strip_def isspace_def of_ascii_def edit_plain_form_def)
  from r1 r2 reg e1 e2 rows edit show ?thesis
    by blast
qed

end
